theory Spec2Isabelle
  imports Main "HOL-Library.Multiset"
begin

section \<open>The moderated-comments store\<close>

text \<open>
  The store of moderated comment ids of the moderation front-end
  (\<^verbatim>\<open>moderatedCommentsReducer\<close> and its selectors). The store keeps, per article and per
  category, a map from bucket names to ordered lists of comment ids. The maps and lists are
  the persistent collections of Immutable.js: every update returns a new collection and
  leaves the old one as it was.
\<close>

subsection \<open>Data\<close>

datatype error = TypeError

text \<open>\<^verbatim>\<open>Map<string, List<string>>\<close> and \<^verbatim>\<open>Map<string, Map<string, List<string>>>\<close>.\<close>

type_synonym ModerationState = "string \<rightharpoonup> string list"
type_synonym ScopeMap = "string \<rightharpoonup> ModerationState"

record IModeratedCommentsState =
  isLoading :: bool
  articles :: ScopeMap
  categories :: ScopeMap

definition initialState :: IModeratedCommentsState where
  "initialState = \<lparr>isLoading = True, articles = Map.empty, categories = Map.empty\<rparr>"

text \<open>
  Modelled from the spec: the type \<^verbatim>\<open>IModeratedComments\<close> of the data service's answer is
  declared outside the files at hand; the data service contract gives it the seven lists
  approved, highlighted, rejected, deferred, flagged, batched and automated.
\<close>

record IModeratedComments =
  approved :: "string list"
  highlighted :: "string list"
  rejected :: "string list"
  deferred :: "string list"
  flagged :: "string list"
  batched :: "string list"
  automated :: "string list"

definition BUCKET_NAMES :: "string set" where
  "BUCKET_NAMES = {''approved'', ''highlighted'', ''rejected'', ''deferred'', ''flagged'',
     ''batched'', ''automated''}"

text \<open>\<^verbatim>\<open>fromJS\<close> turns the plain object into a map and each array into a list.\<close>

definition fromJS :: "IModeratedComments \<Rightarrow> ModerationState" where
  "fromJS mc = [''approved'' \<mapsto> approved mc, ''highlighted'' \<mapsto> highlighted mc,
     ''rejected'' \<mapsto> rejected mc, ''deferred'' \<mapsto> deferred mc, ''flagged'' \<mapsto> flagged mc,
     ''batched'' \<mapsto> batched mc, ''automated'' \<mapsto> automated mc]"

text \<open>
  The table \<^verbatim>\<open>ACTION_PLURAL\<close>. A key that is not in the table reads as a value that is no
  bucket name (\<^verbatim>\<open>undefined\<close>), here \<open>None\<close>.
\<close>

definition ACTION_PLURAL :: "string \<rightharpoonup> string" where
  "ACTION_PLURAL = [''highlight'' \<mapsto> ''highlighted'', ''approve'' \<mapsto> ''approved'',
     ''defer'' \<mapsto> ''deferred'', ''reject'' \<mapsto> ''rejected'', ''tag'' \<mapsto> ''tagged'']"

subsection \<open>The list and map operations of Immutable.js that the reducer calls\<close>

text \<open>\<^verbatim>\<open>List.findIndex\<close>: the index of the first item the predicate holds for, or \<open>-1\<close>.\<close>

fun findIndex :: "('a \<Rightarrow> bool) \<Rightarrow> 'a list \<Rightarrow> int" where
  "findIndex P [] = - 1"
| "findIndex P (x # xs) =
     (if P x then 0 else (let i = findIndex P xs in if i < 0 then - 1 else i + 1))"

text \<open>
  \<^verbatim>\<open>List.delete(index)\<close>: a negative index counts back from the end of the list, so
  \<^verbatim>\<open>delete(-1)\<close> takes the last item away; an index outside the list leaves the list as
  it is.
\<close>

definition List_delete :: "int \<Rightarrow> 'a list \<Rightarrow> 'a list" where
  "List_delete index xs =
     (let n = int (length xs); j = (if index < 0 then n + index else index)
      in if 0 \<le> j \<and> j < n then take (nat j) xs @ drop (Suc (nat j)) xs else xs)"

text \<open>\<^verbatim>\<open>List.push\<close> returns the list with the value appended.\<close>

definition push :: "'a \<Rightarrow> 'a list \<Rightarrow> 'a list" where
  "push x xs = xs @ [x]"

text \<open>
  \<^verbatim>\<open>Map.updateIn([k, b], updater)\<close> on the map of scopes. Where the path leads to no
  value the updater is called with \<^verbatim>\<open>undefined\<close>; the updaters of the reducer call a
  method of their argument at once, which throws a TypeError.
\<close>

definition updateIn :: "ScopeMap \<Rightarrow> string \<Rightarrow> string option \<Rightarrow> (string list \<Rightarrow> string list)
    \<Rightarrow> error + ScopeMap" where
  "updateIn m k b updater =
     (case b of
        None \<Rightarrow> Inl TypeError
      | Some bn \<Rightarrow>
          (case m k of
             None \<Rightarrow> Inl TypeError
           | Some st \<Rightarrow>
               (case st bn of
                  None \<Rightarrow> Inl TypeError
                | Some l \<Rightarrow> Inr (m(k \<mapsto> st(bn \<mapsto> updater l))))))"

text \<open>
  \<^verbatim>\<open>Map.updateIn(['articles', articleId, 'approved'], updater)\<close> on the map of scopes: a path
  of three keys into a structure two maps deep. The first two keys lead at best to a list
  of comment ids; the third key \<^verbatim>\<open>'approved'\<close> is not an index of a list, so the path
  never leads to a value and the updater is called with \<^verbatim>\<open>undefined\<close>: a TypeError on
  every branch.
\<close>

definition updateIn_approved_of_list :: "ScopeMap \<Rightarrow> string \<Rightarrow> string
    \<Rightarrow> (string list \<Rightarrow> string list) \<Rightarrow> error + ScopeMap" where
  "updateIn_approved_of_list m k1 k2 updater =
     (case m k1 of
        None \<Rightarrow> Inl TypeError
      | Some st \<Rightarrow>
          (case st k2 of
             None \<Rightarrow> Inl TypeError
           | Some l \<Rightarrow> Inl TypeError))"

definition bindE :: "error + 'a \<Rightarrow> ('a \<Rightarrow> error + 'b) \<Rightarrow> error + 'b" where
  "bindE r f = (case r of Inl e \<Rightarrow> Inl e | Inr x \<Rightarrow> f x)"

subsection \<open>The reducer\<close>

definition shouldRemoveFromList :: "string \<Rightarrow> string \<Rightarrow> bool" where
  "shouldRemoveFromList currentModeration moderationAction \<longleftrightarrow>
     currentModeration \<noteq> ''batched'' \<and>
     currentModeration \<noteq> ''automated'' \<and>
     ((currentModeration = ''highlighted'' \<and> moderationAction = ''highlight'') \<or>
      (currentModeration \<noteq> ''highlighted'' \<and> moderationAction \<noteq> ''highlight''))"

text \<open>The updater of the removal step:
  \<^verbatim>\<open>(moderated) => moderated.delete(moderated.findIndex((item) => item === commentId))\<close>.\<close>

definition removeComment :: "string \<Rightarrow> string list \<Rightarrow> string list" where
  "removeComment commentId moderated =
     List_delete (findIndex (\<lambda>item. item = commentId) moderated) moderated"

text \<open>
  The body of \<^verbatim>\<open>commentIds.forEach\<close> in the handler for articles. The label
  \<^verbatim>\<open>case 'reject' || 'defer'\<close> is the label \<^verbatim>\<open>case 'reject'\<close>. In the branches for
  \<^verbatim>\<open>'reject'\<close> and \<^verbatim>\<open>default\<close> the map that \<^verbatim>\<open>updateIn\<close> returns is not assigned to
  \<^verbatim>\<open>newState.articles\<close>: the call can throw, and its result is dropped.
\<close>

definition articleComment :: "string \<Rightarrow> string \<Rightarrow> string \<Rightarrow> ScopeMap \<Rightarrow> string
    \<Rightarrow> error + ScopeMap" where
  "articleComment articleId moderationAction currentModeration arts commentId =
     bindE (if shouldRemoveFromList currentModeration moderationAction
            then updateIn arts articleId (Some currentModeration) (removeComment commentId)
            else Inr arts)
       (\<lambda>arts1.
          if moderationAction = ''reject'' then
            bindE (updateIn arts1 articleId (ACTION_PLURAL moderationAction) (push commentId))
              (\<lambda>_. Inr arts1)
          else if moderationAction = ''highlight'' then
            (if currentModeration = ''highlighted'' \<and> moderationAction = ''highlight''
             then Inr arts1
             else bindE (updateIn arts1 articleId (ACTION_PLURAL moderationAction)
                          (push commentId))
                    (\<lambda>arts2. updateIn_approved_of_list arts2 ''articles'' articleId
                               (push commentId)))
          else if moderationAction = ''reset'' then Inr arts1
          else bindE (updateIn arts1 articleId (ACTION_PLURAL moderationAction) (push commentId))
                 (\<lambda>_. Inr arts1))"

text \<open>The body of \<^verbatim>\<open>commentIds.forEach\<close> in the handler for categories.\<close>

definition categoryComment :: "string \<Rightarrow> string \<Rightarrow> string \<Rightarrow> ScopeMap \<Rightarrow> string
    \<Rightarrow> error + ScopeMap" where
  "categoryComment category moderationAction currentModeration cats commentId =
     bindE (if shouldRemoveFromList currentModeration moderationAction
            then updateIn cats category (Some currentModeration) (removeComment commentId)
            else Inr cats)
       (\<lambda>cats1.
          if moderationAction = ''reject'' then
            updateIn cats1 category (ACTION_PLURAL moderationAction) (push commentId)
          else if moderationAction = ''highlight'' then
            (if currentModeration = ''highlighted'' \<and> moderationAction = ''highlight''
             then Inr cats1
             else bindE (updateIn cats1 category (ACTION_PLURAL moderationAction)
                          (push commentId))
                    (\<lambda>cats2. updateIn cats2 category (Some ''approved'') (push commentId)))
          else if moderationAction = ''reset'' then Inr cats1
          else updateIn cats1 category (ACTION_PLURAL moderationAction) (push commentId))"

text \<open>\<^verbatim>\<open>commentIds.forEach\<close>: the ids in turn, each on the map the one before left; an
  exception ends the loop and the handler.\<close>

fun forEach :: "(ScopeMap \<Rightarrow> string \<Rightarrow> error + ScopeMap) \<Rightarrow> string list \<Rightarrow> ScopeMap
    \<Rightarrow> error + ScopeMap" where
  "forEach body [] m = Inr m"
| "forEach body (commentId # commentIds) m =
     bindE (body m commentId) (forEach body commentIds)"

datatype action =
    LoadModeratedCommentsStart
  | LoadModeratedCommentsForArticleComplete string IModeratedComments
  | LoadModeratedCommentsForCategoryComplete string IModeratedComments
  | SetCommentsModerationForArticles string "string list" string string
  | SetCommentsModerationForCategories string "string list" string string

fun moderatedCommentsReducer :: "IModeratedCommentsState \<Rightarrow> action
    \<Rightarrow> error + IModeratedCommentsState" where
  "moderatedCommentsReducer state LoadModeratedCommentsStart = Inr (state\<lparr>isLoading := True\<rparr>)"
| "moderatedCommentsReducer state
       (LoadModeratedCommentsForArticleComplete articleId moderatedComments) =
     Inr (state\<lparr>isLoading := False,
                 articles := (articles state)(articleId \<mapsto> fromJS moderatedComments)\<rparr>)"
| "moderatedCommentsReducer state
       (LoadModeratedCommentsForCategoryComplete category moderatedComments) =
     Inr (state\<lparr>isLoading := False,
                 categories := (categories state)(category \<mapsto> fromJS moderatedComments)\<rparr>)"
| "moderatedCommentsReducer state
       (SetCommentsModerationForArticles articleId commentIds moderationAction
          currentModeration) =
     bindE (forEach (articleComment articleId moderationAction currentModeration) commentIds
              (articles state))
       (\<lambda>arts. Inr (state\<lparr>articles := arts\<rparr>))"
| "moderatedCommentsReducer state
       (SetCommentsModerationForCategories category commentIds moderationAction
          currentModeration) =
     bindE (forEach (categoryComment category moderationAction currentModeration) commentIds
              (categories state))
       (\<lambda>cats. Inr (state\<lparr>categories := cats\<rparr>))"

text \<open>The store: an action whose handler throws leaves the store's state as it was.\<close>

definition dispatch :: "IModeratedCommentsState \<Rightarrow> action \<Rightarrow> IModeratedCommentsState" where
  "dispatch state a = (case moderatedCommentsReducer state a of Inl e \<Rightarrow> state | Inr s \<Rightarrow> s)"

fun run :: "IModeratedCommentsState \<Rightarrow> action list \<Rightarrow> IModeratedCommentsState" where
  "run state [] = state"
| "run state (a # as) = run (dispatch state a) as"

text \<open>The operations under the names the specification gives them.\<close>

definition completeLoad :: "string \<Rightarrow> bool \<Rightarrow> IModeratedComments \<Rightarrow> action" where
  "completeLoad scope isCategory buckets =
     (if isCategory then LoadModeratedCommentsForCategoryComplete scope buckets
      else LoadModeratedCommentsForArticleComplete scope buckets)"

definition transition :: "string \<Rightarrow> bool \<Rightarrow> string list \<Rightarrow> string \<Rightarrow> string
    \<Rightarrow> action" where
  "transition scope isCategory commentIds act previousStatus =
     (if isCategory then SetCommentsModerationForCategories scope commentIds act previousStatus
      else SetCommentsModerationForArticles scope commentIds act previousStatus)"

definition scopes :: "bool \<Rightarrow> IModeratedCommentsState \<Rightarrow> ScopeMap" where
  "scopes isCategory state = (if isCategory then categories state else articles state)"

definition bucket :: "IModeratedCommentsState \<Rightarrow> bool \<Rightarrow> string \<Rightarrow> string
    \<Rightarrow> string list option" where
  "bucket state isCategory scope name =
     (case scopes isCategory state scope of None \<Rightarrow> None | Some st \<Rightarrow> st name)"

subsection \<open>The selectors\<close>

text \<open>
  \<^verbatim>\<open>getRecord\<close> reads the store's state out of the application state, where it may be
  missing; the application state is modelled by what \<^verbatim>\<open>getRecord\<close> finds. The path
  parameters and \<^verbatim>\<open>isArticleContext\<close> are declared outside the files at hand: the
  parameters are modelled by the answer of \<^verbatim>\<open>isArticleContext\<close> and the context id.
\<close>

type_synonym IAppState = "IModeratedCommentsState option"

record IModeratedCommentsPathParams =
  isArticleContext :: bool
  contextId :: string

definition getModeratedCommentsForArticle :: "IAppState \<Rightarrow> ScopeMap option" where
  "getModeratedCommentsForArticle state = map_option articles state"

definition getModeratedCommentsForCategory :: "IAppState \<Rightarrow> ScopeMap option" where
  "getModeratedCommentsForCategory state = map_option categories state"

definition emptyModeratedComments :: ModerationState where
  "emptyModeratedComments = [''approved'' \<mapsto> [], ''highlighted'' \<mapsto> [], ''rejected'' \<mapsto> [],
     ''deferred'' \<mapsto> [], ''flagged'' \<mapsto> [], ''batched'' \<mapsto> [], ''automated'' \<mapsto> []]"

definition lookupScope :: "ScopeMap option \<Rightarrow> string \<Rightarrow> ModerationState" where
  "lookupScope ms k =
     (case ms of
        None \<Rightarrow> emptyModeratedComments
      | Some m \<Rightarrow> (case m k of None \<Rightarrow> emptyModeratedComments | Some st \<Rightarrow> st))"

definition getModeratedComments :: "IAppState \<Rightarrow> IModeratedCommentsPathParams
    \<Rightarrow> ModerationState" where
  "getModeratedComments state params =
     (if isArticleContext params
      then lookupScope (getModeratedCommentsForArticle state) (contextId params)
      else lookupScope (getModeratedCommentsForCategory state) (contextId params))"

section \<open>Notions for the statements\<close>

text \<open>An answer of the data service with no comment in any list.\<close>

definition noComments :: IModeratedComments where
  "noComments = \<lparr>approved = [], highlighted = [], rejected = [], deferred = [], flagged = [],
     batched = [], automated = []\<rparr>"

text \<open>The state with the scope map of one kind replaced.\<close>

definition setScopes :: "bool \<Rightarrow> ScopeMap \<Rightarrow> IModeratedCommentsState
    \<Rightarrow> IModeratedCommentsState" where
  "setScopes isCategory m state =
     (if isCategory then state\<lparr>categories := m\<rparr> else state\<lparr>articles := m\<rparr>)"

text \<open>The ids of a bucket as a set, empty where there is no such bucket.\<close>

definition bucketIds :: "IModeratedCommentsState \<Rightarrow> bool \<Rightarrow> string \<Rightarrow> string
    \<Rightarrow> string set" where
  "bucketIds state isCategory scope name =
     (case bucket state isCategory scope name of None \<Rightarrow> {} | Some l \<Rightarrow> set l)"





subsection \<open>Notions for the proofs\<close>

text \<open>The bucket names of each scope, and the stores all of whose scopes have the seven
  buckets.\<close>

definition bucketNames :: "ScopeMap \<Rightarrow> string \<Rightarrow> string set option" where
  "bucketNames m k = map_option dom (m k)"

definition wellFormed :: "IModeratedCommentsState \<Rightarrow> bool" where
  "wellFormed state \<longleftrightarrow>
     (\<forall>k st. articles state k = Some st \<longrightarrow> dom st = BUCKET_NAMES) \<and>
     (\<forall>k st. categories state k = Some st \<longrightarrow> dom st = BUCKET_NAMES)"

text \<open>Reading a bucket out of a scope map.\<close>

definition getIn :: "ScopeMap \<Rightarrow> string \<Rightarrow> string \<Rightarrow> string list option" where
  "getIn m k b = (case m k of None \<Rightarrow> None | Some st \<Rightarrow> st b)"

definition idsIn :: "ScopeMap \<Rightarrow> string \<Rightarrow> string \<Rightarrow> string set" where
  "idsIn m k b = (case getIn m k b of None \<Rightarrow> {} | Some l \<Rightarrow> set l)"

text \<open>
  What the handler for categories does to the moderation state of a scope that has the
  seven buckets, for one comment id: the removal step, then the insertion step.
\<close>

definition ids :: "ModerationState \<Rightarrow> string \<Rightarrow> string list" where
  "ids st b = (case st b of None \<Rightarrow> [] | Some l \<Rightarrow> l)"

definition upd :: "ModerationState \<Rightarrow> string \<Rightarrow> (string list \<Rightarrow> string list)
    \<Rightarrow> ModerationState" where
  "upd st b updater = st(b \<mapsto> updater (ids st b))"











section \<open>Properties\<close>

lemmas store_defs = dispatch_def completeLoad_def transition_def initialState_def fromJS_def
  bindE_def articleComment_def categoryComment_def updateIn_def updateIn_approved_of_list_def
  shouldRemoveFromList_def removeComment_def List_delete_def push_def ACTION_PLURAL_def
  bucket_def scopes_def noComments_def

subsection \<open>The collection operations\<close>

lemma findIndex_absent: "\<forall>x \<in> set xs. \<not> P x \<Longrightarrow> findIndex P xs = - 1"
  by (induction xs) (auto simp: Let_def)

lemma findIndex_present: "\<exists>x \<in> set xs. P x \<Longrightarrow> 0 \<le> findIndex P xs"
proof (induction xs)
  case Nil
  then show ?case by simp
next
  case (Cons y ys)
  show ?case
  proof (cases "P y")
    case True
    then show ?thesis by simp
  next
    case False
    with Cons.prems have "\<exists>x \<in> set ys. P x" by simp
    then have "0 \<le> findIndex P ys" by (rule Cons.IH)
    with False show ?thesis by (simp add: Let_def)
  qed
qed

lemma List_delete_0: "List_delete 0 (y # ys) = ys"
  by (simp add: List_delete_def)

lemma List_delete_Suc: "0 \<le> i \<Longrightarrow> List_delete (i + 1) (y # ys) = y # List_delete i ys"
  by (auto simp: List_delete_def Let_def nat_add_distrib)

lemma removeComment_present: "x \<in> set l \<Longrightarrow> removeComment x l = remove1 x l"
proof (induction l)
  case Nil
  then show ?case by simp
next
  case (Cons y ys)
  show ?case
  proof (cases "y = x")
    case True
    then show ?thesis by (simp add: removeComment_def List_delete_0)
  next
    case False
    with Cons.prems have mem: "x \<in> set ys" by simp
    then have nn: "0 \<le> findIndex (\<lambda>item. item = x) ys"
      by (intro findIndex_present) auto
    from Cons.IH [OF mem] have "List_delete (findIndex (\<lambda>item. item = x) ys) ys = remove1 x ys"
      by (simp add: removeComment_def)
    with False nn show ?thesis
      by (simp add: removeComment_def Let_def List_delete_Suc)
  qed
qed

lemma removeComment_absent: "x \<notin> set l \<Longrightarrow> removeComment x l = butlast l"
proof -
  assume "x \<notin> set l"
  then have "findIndex (\<lambda>item. item = x) l = - 1"
    by (intro findIndex_absent) auto
  then show ?thesis
    by (cases l rule: rev_cases) (auto simp: removeComment_def List_delete_def Let_def)
qed

lemma set_removeComment: "set (removeComment x l) \<subseteq> set l"
proof (cases "x \<in> set l")
  case True
  then show ?thesis by (simp add: removeComment_present set_remove1_subset)
next
  case False
  then show ?thesis by (auto simp: removeComment_absent dest: in_set_butlastD)
qed

lemma updateIn_Inr:
  assumes "updateIn m k b updater = Inr m'"
  obtains bn st l where "b = Some bn" "m k = Some st" "st bn = Some l"
    "m' = m(k \<mapsto> st(bn \<mapsto> updater l))"
  using assms by (auto simp: updateIn_def split: option.splits)

lemma updateIn_approved_of_list_throws: "updateIn_approved_of_list m k1 k2 updater = Inl TypeError"
  by (simp add: updateIn_approved_of_list_def split: option.splits)

lemma bindE_Inr: "bindE r f = Inr y \<longleftrightarrow> (\<exists>x. r = Inr x \<and> f x = Inr y)"
  by (cases r) (simp_all add: bindE_def)


lemma forEach_single: "forEach body [c] m = body m c"
  by (cases "body m c") (simp_all add: bindE_def)

lemma dom_fromJS: "dom (fromJS mc) = BUCKET_NAMES"
  by (auto simp: fromJS_def BUCKET_NAMES_def)

subsection \<open>The handlers on concrete stores\<close>

text \<open>
  C2: on an article whose buckets are loaded, \<^verbatim>\<open>reject\<close> and \<^verbatim>\<open>defer\<close> take the id out of
  its previous bucket and append it nowhere: the handler for articles drops the map with
  the appended id. The claim says the id is appended to \<^verbatim>\<open>rejected\<close>, respectively
  \<^verbatim>\<open>deferred\<close>; the handler for categories does so.
\<close>

theorem article_reject_defer_not_appended:
  "bucket (run initialState
      [completeLoad ''a1'' False (noComments\<lparr>approved := [''c1'']\<rparr>),
       transition ''a1'' False [''c1''] ''reject'' ''approved'']) False ''a1'' ''rejected''
     = Some []
   \<and> bucket (run initialState
      [completeLoad ''a1'' False (noComments\<lparr>approved := [''c1'']\<rparr>),
       transition ''a1'' False [''c1''] ''reject'' ''approved'']) False ''a1'' ''approved''
     = Some []
   \<and> bucket (run initialState
      [completeLoad ''a1'' False (noComments\<lparr>approved := [''c1'']\<rparr>),
       transition ''a1'' False [''c1''] ''defer'' ''approved'']) False ''a1'' ''deferred''
     = Some []
   \<and> bucket (run initialState
      [completeLoad ''a1'' False (noComments\<lparr>approved := [''c1'']\<rparr>),
       transition ''a1'' False [''c1''] ''defer'' ''approved'']) False ''a1'' ''approved''
     = Some []
   \<and> bucket (run initialState
      [completeLoad ''k'' True (noComments\<lparr>approved := [''c1'']\<rparr>),
       transition ''k'' True [''c1''] ''reject'' ''approved'']) True ''k'' ''rejected''
     = Some [''c1'']
   \<and> bucket (run initialState
      [completeLoad ''k'' True (noComments\<lparr>approved := [''c1'']\<rparr>),
       transition ''k'' True [''c1''] ''defer'' ''approved'']) True ''k'' ''deferred''
     = Some [''c1'']"
  by (simp add: store_defs)

text \<open>
  C3: the scenario of the claim. After the load of article \<^verbatim>\<open>a1\<close> with \<^verbatim>\<open>c1\<close> rejected and
  the transition \<^verbatim>\<open>approve\<close> from \<^verbatim>\<open>rejected\<close>, the bucket \<^verbatim>\<open>rejected\<close> is empty and so is
  \<^verbatim>\<open>approved\<close>: the id is in no bucket, where the claim expects it in \<^verbatim>\<open>approved\<close>.
\<close>

theorem article_approve_scenario:
  "bucket (run initialState
      [completeLoad ''a1'' False (noComments\<lparr>rejected := [''c1'']\<rparr>),
       transition ''a1'' False [''c1''] ''approve'' ''rejected'']) False ''a1'' ''rejected''
     = Some []
   \<and> bucket (run initialState
      [completeLoad ''a1'' False (noComments\<lparr>rejected := [''c1'']\<rparr>),
       transition ''a1'' False [''c1''] ''approve'' ''rejected'']) False ''a1'' ''approved''
     = Some []"
  by (simp add: store_defs)

text \<open>
  C4: on an article whose buckets are loaded, \<^verbatim>\<open>highlight\<close> of an approved comment throws:
  the second update goes down the path \<^verbatim>\<open>['articles', articleId, 'approved']\<close>. The store
  keeps its state, so the id is appended neither to \<^verbatim>\<open>highlighted\<close> nor to \<^verbatim>\<open>approved\<close>.
  The handler for categories updates \<^verbatim>\<open>[category, 'approved']\<close> and appends to both.
\<close>

theorem article_highlight_throws:
  "moderatedCommentsReducer
      (run initialState [completeLoad ''a1'' False (noComments\<lparr>approved := [''c1'']\<rparr>)])
      (transition ''a1'' False [''c1''] ''highlight'' ''approved'') = Inl TypeError
   \<and> bucket (run initialState
      [completeLoad ''a1'' False (noComments\<lparr>approved := [''c1'']\<rparr>),
       transition ''a1'' False [''c1''] ''highlight'' ''approved'']) False ''a1'' ''highlighted''
     = Some []
   \<and> bucket (run initialState
      [completeLoad ''k'' True (noComments\<lparr>approved := [''c1'']\<rparr>),
       transition ''k'' True [''c1''] ''highlight'' ''approved'']) True ''k'' ''highlighted''
     = Some [''c1'']
   \<and> bucket (run initialState
      [completeLoad ''k'' True (noComments\<lparr>approved := [''c1'']\<rparr>),
       transition ''k'' True [''c1''] ''highlight'' ''approved'']) True ''k'' ''approved''
     = Some [''c1'', ''c1'']"
  by (simp add: store_defs)

text \<open>
  C5: the removal step for an id that is not in the bucket of its previous status.
  \<^verbatim>\<open>findIndex\<close> answers \<open>-1\<close> and \<^verbatim>\<open>delete(-1)\<close> takes the last id of the bucket away:
  here \<^verbatim>\<open>c1\<close> is approved from \<^verbatim>\<open>rejected\<close>, where it is not, and \<^verbatim>\<open>c3\<close> leaves \<^verbatim>\<open>rejected\<close>.
\<close>

theorem removal_of_absent_id_drops_last:
  "removeComment ''c1'' [''c2'', ''c3''] = [''c2'']
   \<and> bucket (run initialState
      [completeLoad ''k'' True (noComments\<lparr>rejected := [''c2'', ''c3'']\<rparr>),
       transition ''k'' True [''c1''] ''approve'' ''rejected'']) True ''k'' ''rejected''
     = Some [''c2'']
   \<and> bucket (run initialState
      [completeLoad ''a1'' False (noComments\<lparr>rejected := [''c2'', ''c3'']\<rparr>),
       transition ''a1'' False [''c1''] ''reset'' ''rejected'']) False ''a1'' ''rejected''
     = Some [''c2'']"
  by (simp add: store_defs)

subsection \<open>Steps that only remove\<close>

lemma setScopes_same: "setScopes isCategory (scopes isCategory state) state = state"
  by (simp add: setScopes_def scopes_def)

lemma reducer_transition:
  "moderatedCommentsReducer state (transition scope isCategory commentIds act prev) =
     bindE (forEach ((if isCategory then categoryComment else articleComment) scope act prev)
              commentIds (scopes isCategory state))
       (\<lambda>m. Inr (setScopes isCategory m state))"
  by (simp add: transition_def scopes_def setScopes_def)

lemma comment_removal_only:
  assumes "m scope = Some st" "st prev = Some l"
    and "shouldRemoveFromList prev act"
    and "act = ''reset'' \<or> (act = ''highlight'' \<and> prev = ''highlighted'')"
  shows "(if isCategory then categoryComment else articleComment) scope act prev m c
           = Inr (m(scope \<mapsto> st(prev \<mapsto> removeComment c l)))"
  using assms
  by (auto simp: categoryComment_def articleComment_def bindE_def updateIn_def)

text \<open>
  C1, as the handlers have it: a transition \<^verbatim>\<open>highlight\<close> of a comment whose previous
  status is \<^verbatim>\<open>highlighted\<close> is not a no-op. In a scope that is loaded, with the id in its
  bucket \<^verbatim>\<open>highlighted\<close>, the transition takes the first occurrence of the id out of
  \<^verbatim>\<open>highlighted\<close> and changes nothing else: no bucket gains the id.
\<close>

theorem rehighlight_removes:
  assumes "scopes isCategory state scope = Some st"
    and "st ''highlighted'' = Some l"
    and "commentId \<in> set l"
  shows "moderatedCommentsReducer state
           (transition scope isCategory [commentId] ''highlight'' ''highlighted'')
         = Inr (setScopes isCategory
                  ((scopes isCategory state)
                     (scope \<mapsto> st(''highlighted'' \<mapsto> remove1 commentId l))) state)"
proof -
  have sr: "shouldRemoveFromList ''highlighted'' ''highlight''"
    by (simp add: shouldRemoveFromList_def)
  have "(if isCategory then categoryComment else articleComment) scope ''highlight''
          ''highlighted'' (scopes isCategory state) commentId
        = Inr ((scopes isCategory state)(scope \<mapsto> st(''highlighted'' \<mapsto> removeComment commentId l)))"
    using assms(1,2) sr by (intro comment_removal_only) simp_all
  with assms(3) show ?thesis
    by (simp add: reducer_transition forEach_single bindE_def removeComment_present)
qed

theorem rehighlight_removes_witness:
  "scopes True (run initialState
       [completeLoad ''k'' True (noComments\<lparr>highlighted := [''c1'', ''c2'']\<rparr>)]) ''k''
     = Some (fromJS (noComments\<lparr>highlighted := [''c1'', ''c2'']\<rparr>))
   \<and> fromJS (noComments\<lparr>highlighted := [''c1'', ''c2'']\<rparr>) ''highlighted''
     = Some [''c1'', ''c2'']
   \<and> ''c1'' \<in> set [''c1'', ''c2'']
   \<and> moderatedCommentsReducer
       (run initialState [completeLoad ''k'' True (noComments\<lparr>highlighted := [''c1'', ''c2'']\<rparr>)])
       (transition ''k'' True [''c1''] ''highlight'' ''highlighted'')
     = Inr (setScopes True
         ((scopes True (run initialState
            [completeLoad ''k'' True (noComments\<lparr>highlighted := [''c1'', ''c2'']\<rparr>)]))
          (''k'' \<mapsto> (fromJS (noComments\<lparr>highlighted := [''c1'', ''c2'']\<rparr>))
             (''highlighted'' \<mapsto> remove1 ''c1'' [''c1'', ''c2''])))
         (run initialState
            [completeLoad ''k'' True (noComments\<lparr>highlighted := [''c1'', ''c2'']\<rparr>)]))"
proof -
  let ?S = "run initialState
       [completeLoad ''k'' True (noComments\<lparr>highlighted := [''c1'', ''c2'']\<rparr>)]"
  let ?st = "fromJS (noComments\<lparr>highlighted := [''c1'', ''c2'']\<rparr>)"
  have h1: "scopes True ?S ''k'' = Some ?st"
    by (simp add: scopes_def dispatch_def completeLoad_def)
  have h2: "?st ''highlighted'' = Some [''c1'', ''c2'']"
    by (simp add: fromJS_def noComments_def)
  have h3: "''c1'' \<in> set [''c1'', ''c2'']" by simp
  from rehighlight_removes [OF h1 h2 h3] h1 h2 h3 show ?thesis by blast
qed

text \<open>
  C1 as it is stated fails: the store changes, the bucket \<^verbatim>\<open>highlighted\<close> loses the id.
\<close>

theorem rehighlight_counterexample:
  "dispatch (run initialState [completeLoad ''k'' True (noComments\<lparr>highlighted := [''c1'']\<rparr>)])
       (transition ''k'' True [''c1''] ''highlight'' ''highlighted'')
     \<noteq> run initialState [completeLoad ''k'' True (noComments\<lparr>highlighted := [''c1'']\<rparr>)]
   \<and> bucket (run initialState [completeLoad ''k'' True (noComments\<lparr>highlighted := [''c1'']\<rparr>)])
       True ''k'' ''highlighted'' = Some [''c1'']
   \<and> bucket (dispatch
         (run initialState [completeLoad ''k'' True (noComments\<lparr>highlighted := [''c1'']\<rparr>)])
         (transition ''k'' True [''c1''] ''highlight'' ''highlighted''))
       True ''k'' ''highlighted'' = Some []"
proof -
  let ?S = "run initialState [completeLoad ''k'' True (noComments\<lparr>highlighted := [''c1'']\<rparr>)]"
  let ?S' = "dispatch ?S (transition ''k'' True [''c1''] ''highlight'' ''highlighted'')"
  have b: "bucket ?S True ''k'' ''highlighted'' = Some [''c1'']"
    by (simp add: store_defs)
  have b': "bucket ?S' True ''k'' ''highlighted'' = Some []"
    by (simp add: store_defs)
  from b b' have "?S' \<noteq> ?S" by auto
  with b b' show ?thesis by blast
qed

text \<open>
  C6, as the handlers have it: in a scope that is loaded, \<^verbatim>\<open>reset\<close> of a comment whose
  previous status is \<^verbatim>\<open>approved\<close>, \<^verbatim>\<open>rejected\<close> or \<^verbatim>\<open>deferred\<close>, with the id in that
  bucket, takes the first occurrence of the id out of that bucket and adds the id to no
  bucket. With the previous status \<^verbatim>\<open>highlighted\<close> the removal step is skipped and
  \<^verbatim>\<open>reset\<close> leaves the store as it is, for any ids.
\<close>

theorem reset_removes:
  assumes "scopes isCategory state scope = Some st"
    and "previousStatus \<in> {''approved'', ''rejected'', ''deferred''}"
    and "st previousStatus = Some l"
    and "commentId \<in> set l"
  shows "moderatedCommentsReducer state
           (transition scope isCategory [commentId] ''reset'' previousStatus)
         = Inr (setScopes isCategory
                  ((scopes isCategory state)
                     (scope \<mapsto> st(previousStatus \<mapsto> remove1 commentId l))) state)
       \<and> moderatedCommentsReducer state
           (transition scope isCategory commentIds ''reset'' ''highlighted'') = Inr state"
proof -
  from assms(2) have sr: "shouldRemoveFromList previousStatus ''reset''"
    by (auto simp: shouldRemoveFromList_def)
  have "(if isCategory then categoryComment else articleComment) scope ''reset''
          previousStatus (scopes isCategory state) commentId
        = Inr ((scopes isCategory state)(scope \<mapsto> st(previousStatus \<mapsto> removeComment commentId l)))"
    using assms(1,3) sr by (intro comment_removal_only) simp_all
  with assms(4) have first: "moderatedCommentsReducer state
           (transition scope isCategory [commentId] ''reset'' previousStatus)
         = Inr (setScopes isCategory
                  ((scopes isCategory state)
                     (scope \<mapsto> st(previousStatus \<mapsto> remove1 commentId l))) state)"
    by (simp add: reducer_transition forEach_single bindE_def removeComment_present)
  have nsr: "\<not> shouldRemoveFromList ''highlighted'' ''reset''"
    by (simp add: shouldRemoveFromList_def)
  have body: "\<And>m c. (if isCategory then categoryComment else articleComment) scope ''reset''
                 ''highlighted'' m c = Inr m"
    using nsr by (simp add: categoryComment_def articleComment_def bindE_def)
  have "forEach ((if isCategory then categoryComment else articleComment) scope ''reset''
                 ''highlighted'') commentIds m = Inr m" for m
    by (induction commentIds) (simp_all add: body bindE_def del: if_split)
  then have second: "moderatedCommentsReducer state
           (transition scope isCategory commentIds ''reset'' ''highlighted'') = Inr state"
    by (simp add: reducer_transition bindE_def setScopes_same)
  from first second show ?thesis by simp
qed

theorem reset_removes_witness:
  "scopes False (run initialState
       [completeLoad ''a1'' False (noComments\<lparr>rejected := [''c1'', ''c2'']\<rparr>)]) ''a1''
     = Some (fromJS (noComments\<lparr>rejected := [''c1'', ''c2'']\<rparr>))
   \<and> ''rejected'' \<in> {''approved'', ''rejected'', ''deferred''}
   \<and> fromJS (noComments\<lparr>rejected := [''c1'', ''c2'']\<rparr>) ''rejected'' = Some [''c1'', ''c2'']
   \<and> ''c2'' \<in> set [''c1'', ''c2'']
   \<and> moderatedCommentsReducer
       (run initialState [completeLoad ''a1'' False (noComments\<lparr>rejected := [''c1'', ''c2'']\<rparr>)])
       (transition ''a1'' False [''c2''] ''reset'' ''rejected'')
     = Inr (setScopes False
         ((scopes False (run initialState
            [completeLoad ''a1'' False (noComments\<lparr>rejected := [''c1'', ''c2'']\<rparr>)]))
          (''a1'' \<mapsto> (fromJS (noComments\<lparr>rejected := [''c1'', ''c2'']\<rparr>))
             (''rejected'' \<mapsto> remove1 ''c2'' [''c1'', ''c2''])))
         (run initialState
            [completeLoad ''a1'' False (noComments\<lparr>rejected := [''c1'', ''c2'']\<rparr>)]))
   \<and> moderatedCommentsReducer
       (run initialState [completeLoad ''a1'' False (noComments\<lparr>rejected := [''c1'', ''c2'']\<rparr>)])
       (transition ''a1'' False [''c1''] ''reset'' ''highlighted'')
     = Inr (run initialState
         [completeLoad ''a1'' False (noComments\<lparr>rejected := [''c1'', ''c2'']\<rparr>)])"
proof -
  let ?S = "run initialState
       [completeLoad ''a1'' False (noComments\<lparr>rejected := [''c1'', ''c2'']\<rparr>)]"
  let ?st = "fromJS (noComments\<lparr>rejected := [''c1'', ''c2'']\<rparr>)"
  have h1: "scopes False ?S ''a1'' = Some ?st"
    by (simp add: scopes_def dispatch_def completeLoad_def)
  have h2: "''rejected'' \<in> {''approved'', ''rejected'', ''deferred''}" by simp
  have h3: "?st ''rejected'' = Some [''c1'', ''c2'']"
    by (simp add: fromJS_def noComments_def)
  have h4: "''c2'' \<in> set [''c1'', ''c2'']" by simp
  from reset_removes [OF h1 h2 h3 h4, of "[''c1'']"] h1 h2 h3 h4 show ?thesis by blast
qed

text \<open>
  C6 as it is stated fails for the previous status \<^verbatim>\<open>highlighted\<close>: after \<^verbatim>\<open>reset\<close> the id
  is still in the bucket \<^verbatim>\<open>highlighted\<close>.
\<close>

theorem reset_highlighted_counterexample:
  "bucket (run initialState
      [completeLoad ''k'' True (noComments\<lparr>approved := [''c1''], highlighted := [''c1'']\<rparr>),
       transition ''k'' True [''c1''] ''reset'' ''highlighted'']) True ''k'' ''highlighted''
     = Some [''c1'']
   \<and> bucket (run initialState
      [completeLoad ''a1'' False (noComments\<lparr>approved := [''c1''], highlighted := [''c1'']\<rparr>),
       transition ''a1'' False [''c1''] ''reset'' ''highlighted'']) False ''a1'' ''highlighted''
     = Some [''c1'']"
  by (simp add: store_defs)

subsection \<open>The selector\<close>

lemma dom_emptyModeratedComments: "dom emptyModeratedComments = BUCKET_NAMES"
  by (auto simp: emptyModeratedComments_def BUCKET_NAMES_def)

text \<open>
  C10: for a scope key that is not in the scope map of its kind (articles or categories),
  the selector returns a moderation state with exactly the seven buckets, each of them the
  empty list; it returns a state also when the store's record is missing.
\<close>

theorem getModeratedComments_absent:
  assumes "\<forall>s. state = Some s \<longrightarrow>
             (if isArticleContext params then articles s else categories s) (contextId params)
               = None"
  shows "getModeratedComments state params = emptyModeratedComments
         \<and> dom (getModeratedComments state params) = BUCKET_NAMES
         \<and> (\<forall>b \<in> BUCKET_NAMES. getModeratedComments state params b = Some [])"
proof -
  have eq: "getModeratedComments state params = emptyModeratedComments"
    using assms
    by (cases state)
       (auto simp: getModeratedComments_def lookupScope_def getModeratedCommentsForArticle_def
          getModeratedCommentsForCategory_def)
  have "\<forall>b \<in> BUCKET_NAMES. emptyModeratedComments b = Some []"
    by (simp add: emptyModeratedComments_def BUCKET_NAMES_def)
  with eq dom_emptyModeratedComments show ?thesis by simp
qed

theorem getModeratedComments_absent_witness:
  "articles (dispatch initialState (completeLoad ''a1'' False noComments)) ''a2'' = None
   \<and> getModeratedComments (Some (dispatch initialState (completeLoad ''a1'' False noComments)))
       \<lparr>isArticleContext = True, contextId = ''a2''\<rparr> = emptyModeratedComments
   \<and> dom (getModeratedComments
            (Some (dispatch initialState (completeLoad ''a1'' False noComments)))
            \<lparr>isArticleContext = True, contextId = ''a2''\<rparr>) = BUCKET_NAMES
   \<and> ''flagged'' \<in> BUCKET_NAMES
   \<and> getModeratedComments (Some (dispatch initialState (completeLoad ''a1'' False noComments)))
       \<lparr>isArticleContext = True, contextId = ''a2''\<rparr> ''flagged'' = Some []"
proof -
  let ?S = "dispatch initialState (completeLoad ''a1'' False noComments)"
  have h: "articles ?S ''a2'' = None"
    by (simp add: dispatch_def completeLoad_def initialState_def)
  have b: "''flagged'' \<in> BUCKET_NAMES"
    by (simp add: BUCKET_NAMES_def)
  from h have "\<forall>s. Some ?S = Some s \<longrightarrow>
      (if isArticleContext \<lparr>isArticleContext = True, contextId = ''a2''\<rparr>
       then articles s else categories s)
        (contextId \<lparr>isArticleContext = True, contextId = ''a2''\<rparr>) = None"
    by simp
  from getModeratedComments_absent [OF this] h b show ?thesis by blast
qed

subsection \<open>The bucket names\<close>

lemma updateIn_bucketNames:
  assumes "updateIn m k b updater = Inr m'"
  shows "bucketNames m' = bucketNames m"
proof -
  from assms obtain bn st l where *: "m k = Some st" "st bn = Some l"
    "m' = m(k \<mapsto> st(bn \<mapsto> updater l))"
    by (rule updateIn_Inr)
  then have "dom (st(bn \<mapsto> updater l)) = dom st" by auto
  with * show ?thesis by (auto simp: bucketNames_def fun_eq_iff)
qed

lemma removal_step_bucketNames:
  assumes "(if sr then updateIn m k b updater else Inr m) = Inr m1"
  shows "bucketNames m1 = bucketNames m"
  using assms by (cases sr) (simp_all add: updateIn_bucketNames)

lemma articleComment_bucketNames:
  assumes "articleComment articleId act prev m c = Inr m'"
  shows "bucketNames m' = bucketNames m"
proof -
  from assms obtain m1 where
    rem: "(if shouldRemoveFromList prev act
           then updateIn m articleId (Some prev) (removeComment c) else Inr m) = Inr m1"
    and ins: "(if act = ''reject'' then
            bindE (updateIn m1 articleId (ACTION_PLURAL act) (push c)) (\<lambda>_. Inr m1)
          else if act = ''highlight'' then
            (if prev = ''highlighted'' \<and> act = ''highlight'' then Inr m1
             else bindE (updateIn m1 articleId (ACTION_PLURAL act) (push c))
                    (\<lambda>arts2. updateIn_approved_of_list arts2 ''articles'' articleId (push c)))
          else if act = ''reset'' then Inr m1
          else bindE (updateIn m1 articleId (ACTION_PLURAL act) (push c)) (\<lambda>_. Inr m1)) = Inr m'"
    unfolding articleComment_def bindE_Inr by blast
  from ins have "m' = m1"
    by (simp add: bindE_Inr updateIn_approved_of_list_throws split: if_splits)
  with removal_step_bucketNames [OF rem] show ?thesis by simp
qed

lemma categoryComment_bucketNames:
  assumes "categoryComment category act prev m c = Inr m'"
  shows "bucketNames m' = bucketNames m"
proof -
  from assms obtain m1 where
    rem: "(if shouldRemoveFromList prev act
           then updateIn m category (Some prev) (removeComment c) else Inr m) = Inr m1"
    and ins: "(if act = ''reject'' then
            updateIn m1 category (ACTION_PLURAL act) (push c)
          else if act = ''highlight'' then
            (if prev = ''highlighted'' \<and> act = ''highlight'' then Inr m1
             else bindE (updateIn m1 category (ACTION_PLURAL act) (push c))
                    (\<lambda>cats2. updateIn cats2 category (Some ''approved'') (push c)))
          else if act = ''reset'' then Inr m1
          else updateIn m1 category (ACTION_PLURAL act) (push c)) = Inr m'"
    unfolding categoryComment_def bindE_Inr by blast
  have "bucketNames m' = bucketNames m1"
  proof (cases "act = ''highlight'' \<and> prev \<noteq> ''highlighted''")
    case True
    with ins obtain m2 where "updateIn m1 category (ACTION_PLURAL act) (push c) = Inr m2"
      "updateIn m2 category (Some ''approved'') (push c) = Inr m'"
      by (auto simp: bindE_Inr)
    then show ?thesis by (simp add: updateIn_bucketNames)
  next
    case False
    with ins have "m' = m1 \<or> updateIn m1 category (ACTION_PLURAL act) (push c) = Inr m'"
      by (simp split: if_splits)
    then show ?thesis by (auto simp: updateIn_bucketNames)
  qed
  with removal_step_bucketNames [OF rem] show ?thesis by simp
qed

lemma forEach_preserves:
  assumes "\<And>m c m'. body m c = Inr m' \<Longrightarrow> Q m' = Q m"
    and "forEach body cs m = Inr m'"
  shows "Q m' = Q m"
  using assms(2)
proof (induction cs arbitrary: m)
  case Nil
  then show ?case by simp
next
  case (Cons c cs)
  then obtain m1 where "body m c = Inr m1" "forEach body cs m1 = Inr m'"
    by (auto simp: bindE_Inr)
  with Cons.IH assms(1) show ?case by metis
qed

lemma wellFormed_bucketNames:
  "wellFormed state \<longleftrightarrow>
     (\<forall>k N. bucketNames (articles state) k = Some N \<longrightarrow> N = BUCKET_NAMES) \<and>
     (\<forall>k N. bucketNames (categories state) k = Some N \<longrightarrow> N = BUCKET_NAMES)"
  unfolding wellFormed_def bucketNames_def by (simp add: map_option_case split: option.splits)

lemma reducer_wellFormed:
  assumes "wellFormed state" "moderatedCommentsReducer state a = Inr state'"
  shows "wellFormed state'"
proof (cases a)
  case LoadModeratedCommentsStart
  with assms show ?thesis by (clarsimp simp: wellFormed_def)
next
  case (LoadModeratedCommentsForArticleComplete k mc)
  with assms show ?thesis by (clarsimp simp: wellFormed_def dom_fromJS)
next
  case (LoadModeratedCommentsForCategoryComplete k mc)
  with assms show ?thesis by (clarsimp simp: wellFormed_def dom_fromJS)
next
  case (SetCommentsModerationForArticles k cs act prev)
  with assms(2) obtain m' where fe: "forEach (articleComment k act prev) cs (articles state) = Inr m'"
    and s': "state' = state\<lparr>articles := m'\<rparr>"
    by (auto simp: bindE_Inr)
  from fe have "bucketNames m' = bucketNames (articles state)"
    by (rule forEach_preserves [rotated]) (rule articleComment_bucketNames)
  with assms(1) s' show ?thesis by (simp add: wellFormed_bucketNames)
next
  case (SetCommentsModerationForCategories k cs act prev)
  with assms(2) obtain m' where fe: "forEach (categoryComment k act prev) cs (categories state) = Inr m'"
    and s': "state' = state\<lparr>categories := m'\<rparr>"
    by (auto simp: bindE_Inr)
  from fe have "bucketNames m' = bucketNames (categories state)"
    by (rule forEach_preserves [rotated]) (rule categoryComment_bucketNames)
  with assms(1) s' show ?thesis by (simp add: wellFormed_bucketNames)
qed

lemma dispatch_wellFormed: "wellFormed state \<Longrightarrow> wellFormed (dispatch state a)"
  by (cases "moderatedCommentsReducer state a") (auto simp: dispatch_def dest: reducer_wellFormed)

lemma run_wellFormed: "wellFormed state \<Longrightarrow> wellFormed (run state as)"
  by (induction as arbitrary: state) (simp_all add: dispatch_wellFormed)

lemma wellFormed_initialState: "wellFormed initialState"
  by (simp add: wellFormed_def initialState_def)

text \<open>
  C7: after any sequence of actions dispatched to the initial store (starts of loads, loads
  of articles and categories, transitions on articles and categories, with any arguments),
  the moderation state of every scope has the seven bucket names and no other. An action
  whose handler throws leaves the store as it was.
\<close>

theorem only_seven_buckets:
  "(articles (run initialState ops) k = Some st \<longrightarrow> dom st = BUCKET_NAMES) \<and>
   (categories (run initialState ops) k = Some st \<longrightarrow> dom st = BUCKET_NAMES)"
  using run_wellFormed [OF wellFormed_initialState, of ops]
  by (simp add: wellFormed_def)

theorem only_seven_buckets_witness:
  "articles (run initialState
      [completeLoad ''a1'' False (noComments\<lparr>rejected := [''c1'']\<rparr>),
       completeLoad ''k'' True (noComments\<lparr>rejected := [''c1'']\<rparr>),
       transition ''k'' True [''c1''] ''tag'' ''rejected'',
       transition ''k'' True [''c1''] ''approve'' ''rejected'',
       transition ''a1'' False [''c1''] ''approve'' ''rejected'']) ''a1''
     \<noteq> None
   \<and> dom (the (articles (run initialState
      [completeLoad ''a1'' False (noComments\<lparr>rejected := [''c1'']\<rparr>),
       completeLoad ''k'' True (noComments\<lparr>rejected := [''c1'']\<rparr>),
       transition ''k'' True [''c1''] ''tag'' ''rejected'',
       transition ''k'' True [''c1''] ''approve'' ''rejected'',
       transition ''a1'' False [''c1''] ''approve'' ''rejected'']) ''a1'')) = BUCKET_NAMES
   \<and> categories (run initialState
      [completeLoad ''a1'' False (noComments\<lparr>rejected := [''c1'']\<rparr>),
       completeLoad ''k'' True (noComments\<lparr>rejected := [''c1'']\<rparr>),
       transition ''k'' True [''c1''] ''tag'' ''rejected'',
       transition ''k'' True [''c1''] ''approve'' ''rejected'',
       transition ''a1'' False [''c1''] ''approve'' ''rejected'']) ''k''
     \<noteq> None
   \<and> dom (the (categories (run initialState
      [completeLoad ''a1'' False (noComments\<lparr>rejected := [''c1'']\<rparr>),
       completeLoad ''k'' True (noComments\<lparr>rejected := [''c1'']\<rparr>),
       transition ''k'' True [''c1''] ''tag'' ''rejected'',
       transition ''k'' True [''c1''] ''approve'' ''rejected'',
       transition ''a1'' False [''c1''] ''approve'' ''rejected'']) ''k'')) = BUCKET_NAMES"
proof -
  let ?ops = "[completeLoad ''a1'' False (noComments\<lparr>rejected := [''c1'']\<rparr>),
       completeLoad ''k'' True (noComments\<lparr>rejected := [''c1'']\<rparr>),
       transition ''k'' True [''c1''] ''tag'' ''rejected'',
       transition ''k'' True [''c1''] ''approve'' ''rejected'',
       transition ''a1'' False [''c1''] ''approve'' ''rejected'']"
  let ?S = "run initialState ?ops"
  have a: "articles ?S ''a1'' \<noteq> None"
    by (simp add: store_defs)
  have c: "categories ?S ''k'' \<noteq> None"
    by (simp add: store_defs)
  from a have a': "articles ?S ''a1'' = Some (the (articles ?S ''a1''))" by simp
  from c have c': "categories ?S ''k'' = Some (the (categories ?S ''k''))" by simp
  from only_seven_buckets [of ?ops "''a1''" "the (articles ?S ''a1'')"] a'
  have da: "dom (the (articles ?S ''a1'')) = BUCKET_NAMES" by blast
  from only_seven_buckets [of ?ops "''k''" "the (categories ?S ''k'')"] c'
  have dc: "dom (the (categories ?S ''k'')) = BUCKET_NAMES" by blast
  from a da c dc show ?thesis by blast
qed

subsection \<open>The bucket of flagged comments\<close>

lemma bucket_getIn: "bucket state c k b = getIn (scopes c state) k b"
  by (simp add: bucket_def getIn_def)

lemma bucketIds_idsIn: "bucketIds state c k b = idsIn (scopes c state) k b"
  by (simp add: bucketIds_def idsIn_def bucket_getIn)

lemma updateIn_getIn_other:
  assumes "updateIn m k b updater = Inr m'" "b \<noteq> Some name"
  shows "getIn m' k' name = getIn m k' name"
proof -
  from assms(1) obtain bn st l where *: "b = Some bn" "m k = Some st" "st bn = Some l"
    "m' = m(k \<mapsto> st(bn \<mapsto> updater l))"
    by (rule updateIn_Inr)
  with assms(2) show ?thesis by (simp add: getIn_def)
qed

lemma updateIn_getIn_same:
  assumes "updateIn m k (Some bn) updater = Inr m'"
  shows "getIn m' k' bn = (if k' = k then map_option updater (getIn m k bn) else getIn m k' bn)"
proof -
  from assms obtain st l where *: "m k = Some st" "st bn = Some l"
    "m' = m(k \<mapsto> st(bn \<mapsto> updater l))"
    by (auto elim: updateIn_Inr)
  then show ?thesis by (simp add: getIn_def)
qed

lemma ACTION_PLURAL_not_flagged: "ACTION_PLURAL act \<noteq> Some ''flagged''"
  by (simp add: ACTION_PLURAL_def)

lemma removal_step_flagged:
  assumes "(if shouldRemoveFromList prev act
            then updateIn m k (Some prev) (removeComment c) else Inr m) = Inr m1"
  shows "(prev \<noteq> ''flagged'' \<or> act = ''highlight'' \<longrightarrow>
            getIn m1 k' ''flagged'' = getIn m k' ''flagged'')
         \<and> idsIn m1 k' ''flagged'' \<subseteq> idsIn m k' ''flagged''"
proof (cases "shouldRemoveFromList prev act")
  case False
  with assms show ?thesis by simp
next
  case True
  with assms have upd: "updateIn m k (Some prev) (removeComment c) = Inr m1" by simp
  show ?thesis
  proof (cases "prev = ''flagged''")
    case False
    then have "Some prev \<noteq> Some ''flagged''" by simp
    with upd have "getIn m1 k' ''flagged'' = getIn m k' ''flagged''"
      by (rule updateIn_getIn_other)
    then show ?thesis by (simp add: idsIn_def)
  next
    case pf: True
    with True have "act \<noteq> ''highlight''" by (simp add: shouldRemoveFromList_def)
    moreover from upd pf have "getIn m1 k' ''flagged'' =
        (if k' = k then map_option (removeComment c) (getIn m k ''flagged'')
         else getIn m k' ''flagged'')"
      by (simp add: updateIn_getIn_same)
    then have "idsIn m1 k' ''flagged'' \<subseteq> idsIn m k' ''flagged''"
      using set_removeComment [of c]
      by (auto simp: idsIn_def split: option.splits if_splits)
    ultimately show ?thesis using pf by simp
  qed
qed

lemma articleComment_flagged:
  assumes "articleComment articleId act prev m c = Inr m'"
  shows "(prev \<noteq> ''flagged'' \<or> act = ''highlight'' \<longrightarrow>
            getIn m' k' ''flagged'' = getIn m k' ''flagged'')
         \<and> idsIn m' k' ''flagged'' \<subseteq> idsIn m k' ''flagged''"
proof -
  from assms obtain m1 where
    rem: "(if shouldRemoveFromList prev act
           then updateIn m articleId (Some prev) (removeComment c) else Inr m) = Inr m1"
    and ins: "(if act = ''reject'' then
            bindE (updateIn m1 articleId (ACTION_PLURAL act) (push c)) (\<lambda>_. Inr m1)
          else if act = ''highlight'' then
            (if prev = ''highlighted'' \<and> act = ''highlight'' then Inr m1
             else bindE (updateIn m1 articleId (ACTION_PLURAL act) (push c))
                    (\<lambda>arts2. updateIn_approved_of_list arts2 ''articles'' articleId (push c)))
          else if act = ''reset'' then Inr m1
          else bindE (updateIn m1 articleId (ACTION_PLURAL act) (push c)) (\<lambda>_. Inr m1)) = Inr m'"
    unfolding articleComment_def bindE_Inr by blast
  from ins have "m' = m1"
    by (simp add: bindE_Inr updateIn_approved_of_list_throws split: if_splits)
  with removal_step_flagged [OF rem] show ?thesis by simp
qed

lemma categoryComment_flagged:
  assumes "categoryComment category act prev m c = Inr m'"
  shows "(prev \<noteq> ''flagged'' \<or> act = ''highlight'' \<longrightarrow>
            getIn m' k' ''flagged'' = getIn m k' ''flagged'')
         \<and> idsIn m' k' ''flagged'' \<subseteq> idsIn m k' ''flagged''"
proof -
  from assms obtain m1 where
    rem: "(if shouldRemoveFromList prev act
           then updateIn m category (Some prev) (removeComment c) else Inr m) = Inr m1"
    and ins: "(if act = ''reject'' then
            updateIn m1 category (ACTION_PLURAL act) (push c)
          else if act = ''highlight'' then
            (if prev = ''highlighted'' \<and> act = ''highlight'' then Inr m1
             else bindE (updateIn m1 category (ACTION_PLURAL act) (push c))
                    (\<lambda>cats2. updateIn cats2 category (Some ''approved'') (push c)))
          else if act = ''reset'' then Inr m1
          else updateIn m1 category (ACTION_PLURAL act) (push c)) = Inr m'"
    unfolding categoryComment_def bindE_Inr by blast
  have "getIn m' k' ''flagged'' = getIn m1 k' ''flagged''"
  proof (cases "act = ''highlight'' \<and> prev \<noteq> ''highlighted''")
    case True
    with ins obtain m2 where "updateIn m1 category (ACTION_PLURAL act) (push c) = Inr m2"
      "updateIn m2 category (Some ''approved'') (push c) = Inr m'"
      by (auto simp: bindE_Inr)
    then show ?thesis
      using updateIn_getIn_other [of m1 category "ACTION_PLURAL act" "push c" m2 "''flagged''" k']
        updateIn_getIn_other [of m2 category "Some ''approved''" "push c" m' "''flagged''" k']
      by (simp add: ACTION_PLURAL_not_flagged)
  next
    case False
    with ins have "m' = m1 \<or> updateIn m1 category (ACTION_PLURAL act) (push c) = Inr m'"
      by (simp split: if_splits)
    then show ?thesis
      using updateIn_getIn_other [of m1 category "ACTION_PLURAL act" "push c" m' "''flagged''" k']
      by (auto simp: ACTION_PLURAL_not_flagged)
  qed
  with removal_step_flagged [OF rem, of k'] show ?thesis by (simp add: idsIn_def)
qed

lemma forEach_flagged:
  assumes "\<And>m c m'. body m c = Inr m' \<Longrightarrow>
             (P \<longrightarrow> getIn m' k' ''flagged'' = getIn m k' ''flagged'')
             \<and> idsIn m' k' ''flagged'' \<subseteq> idsIn m k' ''flagged''"
    and "forEach body cs m = Inr m'"
  shows "(P \<longrightarrow> getIn m' k' ''flagged'' = getIn m k' ''flagged'')
         \<and> idsIn m' k' ''flagged'' \<subseteq> idsIn m k' ''flagged''"
  using assms(2)
proof (induction cs arbitrary: m)
  case Nil
  then show ?case by simp
next
  case (Cons c cs)
  then obtain m1 where b: "body m c = Inr m1" and r: "forEach body cs m1 = Inr m'"
    by (auto simp: bindE_Inr)
  from assms(1) [OF b] Cons.IH [OF r] show ?case by auto
qed

text \<open>
  C9, as the handlers have it: a transition whose previous status is not \<^verbatim>\<open>flagged\<close>, and
  any transition with the action \<^verbatim>\<open>highlight\<close>, leaves the bucket \<^verbatim>\<open>flagged\<close> of every
  scope as it is, whether the handler returns or throws. No transition inserts an id into
  \<^verbatim>\<open>flagged\<close>: the ids in \<^verbatim>\<open>flagged\<close> afterwards were there before. (With the previous
  status \<^verbatim>\<open>flagged\<close> and another action the removal step does take ids out of \<^verbatim>\<open>flagged\<close>.)
\<close>

theorem flagged_frame:
  "(previousStatus \<noteq> ''flagged'' \<or> act = ''highlight'' \<longrightarrow>
      bucket (dispatch state (transition scope isCategory commentIds act previousStatus))
        c k ''flagged'' = bucket state c k ''flagged'')
   \<and> bucketIds (dispatch state (transition scope isCategory commentIds act previousStatus))
        c k ''flagged'' \<subseteq> bucketIds state c k ''flagged''"
proof (cases "moderatedCommentsReducer state
                (transition scope isCategory commentIds act previousStatus)")
  case (Inl e)
  then show ?thesis by (simp add: dispatch_def)
next
  case (Inr state')
  then have d: "dispatch state (transition scope isCategory commentIds act previousStatus) = state'"
    by (simp add: dispatch_def)
  from Inr obtain m' where
    fe: "forEach ((if isCategory then categoryComment else articleComment) scope act
           previousStatus) commentIds (scopes isCategory state) = Inr m'"
    and s': "state' = setScopes isCategory m' state"
    by (auto simp: reducer_transition bindE_Inr)
  have body: "\<And>m c m' k'. (if isCategory then categoryComment else articleComment) scope act
                 previousStatus m c = Inr m' \<Longrightarrow>
             (previousStatus \<noteq> ''flagged'' \<or> act = ''highlight''
                \<longrightarrow> getIn m' k' ''flagged'' = getIn m k' ''flagged'')
             \<and> idsIn m' k' ''flagged'' \<subseteq> idsIn m k' ''flagged''"
    using categoryComment_flagged articleComment_flagged by (cases isCategory) simp_all
  have main: "(previousStatus \<noteq> ''flagged'' \<or> act = ''highlight''
                \<longrightarrow> getIn m' k ''flagged'' = getIn (scopes isCategory state) k ''flagged'')
             \<and> idsIn m' k ''flagged'' \<subseteq> idsIn (scopes isCategory state) k ''flagged''"
    using body fe by (rule forEach_flagged)
  have sc: "scopes c state' = (if c = isCategory then m' else scopes c state)"
    using s' by (auto simp: scopes_def setScopes_def)
  show ?thesis
    unfolding d bucket_getIn bucketIds_idsIn sc using main by auto
qed

theorem flagged_frame_witness:
  "''approved'' \<noteq> ''flagged''
   \<and> bucket (dispatch
         (run initialState
            [completeLoad ''k'' True (noComments\<lparr>approved := [''c1''], flagged := [''c9'']\<rparr>)])
         (transition ''k'' True [''c1''] ''reject'' ''approved'')) True ''k'' ''flagged''
     = bucket (run initialState
         [completeLoad ''k'' True (noComments\<lparr>approved := [''c1''], flagged := [''c9'']\<rparr>)])
         True ''k'' ''flagged''
   \<and> bucketIds (dispatch
         (run initialState
            [completeLoad ''k'' True (noComments\<lparr>approved := [''c1''], flagged := [''c9'']\<rparr>)])
         (transition ''k'' True [''c1''] ''reject'' ''approved'')) True ''k'' ''flagged''
     \<subseteq> bucketIds (run initialState
         [completeLoad ''k'' True (noComments\<lparr>approved := [''c1''], flagged := [''c9'']\<rparr>)])
         True ''k'' ''flagged''"
  using flagged_frame [of "''approved''" "''reject''"
      "run initialState
         [completeLoad ''k'' True (noComments\<lparr>approved := [''c1''], flagged := [''c9'']\<rparr>)]"
      "''k''" True "[''c1'']" True "''k''"]
  by simp

text \<open>
  C9 as it is stated fails for the previous status \<^verbatim>\<open>flagged\<close>: the removal step takes the
  id out of the bucket \<^verbatim>\<open>flagged\<close>.
\<close>

theorem flagged_counterexample:
  "bucket (run initialState
      [completeLoad ''k'' True (noComments\<lparr>flagged := [''c1'']\<rparr>)]) True ''k'' ''flagged''
     = Some [''c1'']
   \<and> bucket (run initialState
      [completeLoad ''k'' True (noComments\<lparr>flagged := [''c1'']\<rparr>),
       transition ''k'' True [''c1''] ''approve'' ''flagged'']) True ''k'' ''flagged''
     = Some []"
  by (simp add: store_defs)

subsection \<open>Batches of steps on a scope\<close>




































end
